theory Spec2Isabelle
  imports Main
begin

section \<open>The preprocessing pipeline of \<^verbatim>\<open>preprocess.py\<close>\<close>

text \<open>
  \<^verbatim>\<open>preprocess.py\<close> sequences five stages: acquisition of submission files, parsing and
  rough filtering, case building, phenomization and the export in the old format. The
  stages call collaborators of the package \<^verbatim>\<open>lib\<close> and of the Python standard library;
  the script itself holds the control flow. The embedding keeps that split: the
  collaborators are the fields of a record, the functions of the script are HOL
  functions over them.

  Every function of the script becomes a function from the store (the directories and
  the checkpoint files on disk) to a triple: the outcome (\<open>Inl\<close> an exception that
  left the function, \<open>Inr\<close> its return value), the calls to the outside it has made,
  in order, and the store it leaves. An exception keeps the calls made before it.
\<close>

subsection \<open>Command line and configuration\<close>

text \<open>
  The namespace returned by \<^verbatim>\<open>parse_arguments\<close>: \<^verbatim>\<open>--single\<close> and \<^verbatim>\<open>--pickle\<close> have no
  default (\<^verbatim>\<open>None\<close>), \<^verbatim>\<open>--output\<close> defaults to the empty string and \<^verbatim>\<open>--entry\<close> to
  \<^verbatim>\<open>"pheno"\<close>.
\<close>

record args =
  single :: "string option"
  output_arg :: string
  pickle :: "string option"
  entry :: string

definition parse_arguments_default :: args where
  "parse_arguments_default =
     \<lparr>single = None, output_arg = [], pickle = None, entry = ''pheno''\<rparr>"

text \<open>The options of \<^verbatim>\<open>config.ConfigManager\<close> that the script reads.\<close>

record config =
  download :: bool
  dump_intermediate :: bool
  download_location :: string
  corrected_location :: string
  exclude_normal_variants :: bool
  output_path :: string

text \<open>
  Python's truth value of an optional string, as in \<^verbatim>\<open>if args.single\<close> and
  \<^verbatim>\<open>if not args.pickle\<close>: \<^verbatim>\<open>None\<close> and the empty string are false.
\<close>

fun truthy :: "string option \<Rightarrow> bool" where
  "truthy None = False"
| "truthy (Some p) = (p \<noteq> [])"

subsection \<open>Errors, calls and the store\<close>

datatype error = FileNotFoundError string | Raised string

text \<open>
  One constructor for each call that leaves the script. \<open>'j\<close> is the type of the
  submission objects (\<^verbatim>\<open>json.NewJson\<close>), \<open>'c\<close> the type of the case objects
  (\<^verbatim>\<open>case.Case\<close>).
\<close>

datatype ('j, 'c) event =
    BackupS3Folder
  | Listdir string
  | FromFile string string
  | Print string nat
  | ErrorFixerInit
  | NewCase 'j bool
  | CorrectReferenceTranscripts "'c list"
  | PickleDump "'c list" string
  | PickleLoad string
  | PhenomizerInit
  | Phenomize 'c
  | OmimInit
  | SaveOldJson 'c string

text \<open>
  The store: what \<^verbatim>\<open>os.listdir\<close> returns for a directory, and the content of the
  files written by \<^verbatim>\<open>pickle.dump\<close> and read by \<^verbatim>\<open>pickle.load\<close>. \<open>'b\<close> is the type of
  a serialized collection.
\<close>

record 'b store =
  dirs :: "string \<rightharpoonup> string list"
  files :: "string \<rightharpoonup> 'b"

text \<open>
  The collaborators. A call that can raise returns a sum. The methods that mutate their
  argument in place (\<^verbatim>\<open>correct_reference_transcripts\<close> on the list,
  \<^verbatim>\<open>Case.phenomize\<close> on the case) return the mutated object.
  \<^verbatim>\<open>json_check\<close> is \<^verbatim>\<open>NewJson.check\<close>, a pair of the verdict and a reason.
  \<^verbatim>\<open>old_json_save\<close> stands for \<^verbatim>\<open>OldJson.from_case_object\<close> followed by
  \<^verbatim>\<open>save_json\<close>; \<open>None\<close> is its normal return.
\<close>

record ('j, 'c, 'b) collaborators =
  backup_s3_folder :: "(string \<rightharpoonup> string list) \<Rightarrow> error + (string \<rightharpoonup> string list)"
  from_file :: "string \<Rightarrow> string \<Rightarrow> error + 'j"
  json_check :: "'j \<Rightarrow> bool \<times> string"
  new_case :: "'j \<Rightarrow> bool \<Rightarrow> error + 'c"
  correct_reference_transcripts :: "'c list \<Rightarrow> error + 'c list"
  case_phenomize :: "'c \<Rightarrow> error + 'c"
  old_json_save :: "'c \<Rightarrow> string \<Rightarrow> error option"
  pickle_dumps :: "'c list \<Rightarrow> 'b"
  pickle_loads :: "'b \<Rightarrow> error + 'c list"

type_synonym ('a, 'j, 'c, 'b) io =
  "'b store \<Rightarrow> (error + 'a) \<times> ('j, 'c) event list \<times> 'b store"

definition ret :: "'a \<Rightarrow> ('a, 'j, 'c, 'b) io" where
  "ret a s = (Inr a, [], s)"

text \<open>A call to the outside: it is recorded, and returns or raises.\<close>

definition call :: "('j, 'c) event \<Rightarrow> error + 'a \<Rightarrow> ('a, 'j, 'c, 'b) io" where
  "call ev r s = (r, [ev], s)"

text \<open>Sequencing of two statements: an exception in the first skips the second.\<close>

definition bnd ::
  "('a, 'j, 'c, 'b) io \<Rightarrow> ('a \<Rightarrow> ('a2, 'j, 'c, 'b) io) \<Rightarrow> ('a2, 'j, 'c, 'b) io" where
  "bnd m f s =
     (case m s of
        (Inl e, evs, s') \<Rightarrow> (Inl e, evs, s')
      | (Inr a, evs, s') \<Rightarrow> (case f a s' of (r, evs', s'') \<Rightarrow> (r, evs @ evs', s'')))"

subsection \<open>Paths\<close>

text \<open>\<^verbatim>\<open>os.path.join\<close> of two components and the extension of \<^verbatim>\<open>os.path.splitext\<close> (POSIX).\<close>

definition path_join :: "string \<Rightarrow> string \<Rightarrow> string" where
  "path_join a b =
     (if b \<noteq> [] \<and> hd b = CHR ''/'' then b
      else if a = [] \<or> last a = CHR ''/'' then a @ b
      else a @ ''/'' @ b)"

definition splitext_ext :: "string \<Rightarrow> string" where
  "splitext_ext p =
     (let base = rev (takeWhile (\<lambda>c. c \<noteq> CHR ''/'') (rev p));
          suffix = rev (takeWhile (\<lambda>c. c \<noteq> CHR ''.'') (rev base));
          stem = take (length base - length suffix - 1) base
      in if CHR ''.'' \<in> set base \<and> \<not> list_all (\<lambda>c. c = CHR ''.'') stem
         then CHR ''.'' # suffix else [])"

subsection \<open>The progress bar\<close>

text \<open>
  Modelled from the spec: the decorator \<^verbatim>\<open>lib.visual.progress_bar\<close> is not part of the
  script. It wraps a generator function; the script takes \<^verbatim>\<open>len\<close> of what the wrapped
  function returns and calls \<^verbatim>\<open>yield_phenomized\<close> and \<^verbatim>\<open>yield_old_json\<close> for their
  effects alone, so the wrapper runs the generator to its end and returns the list of
  the values it yields, one for each element of the first argument, in order. An
  exception in the generator body leaves the wrapper. The progress output is not
  modelled. The body of the generator's loop is the argument \<open>body\<close>.
\<close>

fun progress_bar ::
  "string \<Rightarrow> ('x \<Rightarrow> ('y, 'j, 'c, 'b) io) \<Rightarrow> 'x list \<Rightarrow> ('y list, 'j, 'c, 'b) io" where
  "progress_bar label body [] = ret []"
| "progress_bar label body (x # xs) =
     bnd (body x) (\<lambda>y. bnd (progress_bar label body xs) (\<lambda>ys. ret (y # ys)))"

subsection \<open>The stages\<close>

text \<open>\<^verbatim>\<open>os.listdir\<close> raises for a directory that does not exist.\<close>

definition listdir :: "string \<Rightarrow> (string list, 'j, 'c, 'b) io" where
  "listdir d s =
     call (Listdir d)
       (case dirs s d of None \<Rightarrow> Inl (FileNotFoundError d) | Some names \<Rightarrow> Inr names) s"

text \<open>\<^verbatim>\<open>download.backup_s3_folder\<close> changes the directories of the local cache.\<close>

definition backup ::
  "('j, 'c, 'b) collaborators \<Rightarrow> (unit, 'j, 'c, 'b) io" where
  "backup env s =
     (case backup_s3_folder env (dirs s) of
        Inl e \<Rightarrow> (Inl e, [BackupS3Folder], s)
      | Inr d \<Rightarrow> (Inr (), [BackupS3Folder], s\<lparr>dirs := d\<rparr>))"

definition json_from_directory ::
  "config \<Rightarrow> ('j, 'c, 'b) collaborators \<Rightarrow> (string list \<times> string, 'j, 'c, 'b) io" where
  "json_from_directory config_data env =
     bnd (if download config_data then backup env else ret ()) (\<lambda>_.
       let unprocessed_jsons = path_join (download_location config_data) ''cases'' in
       bnd (listdir unprocessed_jsons) (\<lambda>names.
         let json_files = map (path_join unprocessed_jsons)
                            (filter (\<lambda>x. splitext_ext x = ''.json'') names);
             corrected = corrected_location config_data
         in ret (json_files, corrected)))"

definition yield_jsons ::
  "('j, 'c, 'b) collaborators \<Rightarrow> string list \<Rightarrow> string \<Rightarrow> ('j list, 'j, 'c, 'b) io" where
  "yield_jsons env json_files corrected =
     progress_bar ''Process jsons''
       (\<lambda>json_file. call (FromFile json_file corrected) (from_file env json_file corrected))
       json_files"

definition yield_cases ::
  "('j, 'c, 'b) collaborators \<Rightarrow> 'j list \<Rightarrow> bool \<Rightarrow> ('c list, 'j, 'c, 'b) io" where
  "yield_cases env json_files exclusion =
     progress_bar ''Create cases''
       (\<lambda>json_file. call (NewCase json_file exclusion) (new_case env json_file exclusion))
       json_files"

text \<open>
  \<^verbatim>\<open>yield_phenomized\<close> yields \<^verbatim>\<open>None\<close> and mutates each case; the model returns the
  mutated cases, which are the elements of the caller's list after the call.
\<close>

definition yield_phenomized ::
  "('j, 'c, 'b) collaborators \<Rightarrow> 'c list \<Rightarrow> ('c list, 'j, 'c, 'b) io" where
  "yield_phenomized env case_objs =
     progress_bar ''Phenomization''
       (\<lambda>case_obj. call (Phenomize case_obj) (case_phenomize env case_obj))
       case_objs"

definition yield_old_json ::
  "('j, 'c, 'b) collaborators \<Rightarrow> 'c list \<Rightarrow> string \<Rightarrow> (unit list, 'j, 'c, 'b) io" where
  "yield_old_json env case_objs destination =
     progress_bar ''Convert old''
       (\<lambda>case_obj. call (SaveOldJson case_obj destination)
          (case old_json_save env case_obj destination of
             Some e \<Rightarrow> Inl e | None \<Rightarrow> Inr ()))
       case_objs"

definition create_jsons ::
  "args \<Rightarrow> config \<Rightarrow> ('j, 'c, 'b) collaborators \<Rightarrow> ('j list, 'j, 'c, 'b) io" where
  "create_jsons args config_data env =
     bnd (case single args of
            Some p \<Rightarrow> if truthy (Some p) then ret ([p], []) else json_from_directory config_data env
          | None \<Rightarrow> json_from_directory config_data env)
       (\<lambda>(json_files, corrected).
          bnd (yield_jsons env json_files corrected) (\<lambda>new_json_objs.
            bnd (call (Print ''Unfiltered'' (length new_json_objs)) (Inr ())) (\<lambda>_.
              let filtered_new = filter (\<lambda>j. fst (json_check env j)) new_json_objs in
              bnd (call (Print ''Filtered rough criteria'' (length filtered_new)) (Inr ())) (\<lambda>_.
                ret filtered_new))))"

text \<open>\<^verbatim>\<open>pickle.dump(obj, open(path, 'wb'))\<close> replaces the content of the file.\<close>

definition pickle_dump ::
  "('j, 'c, 'b) collaborators \<Rightarrow> 'c list \<Rightarrow> string \<Rightarrow> (unit, 'j, 'c, 'b) io" where
  "pickle_dump env obj path s =
     (Inr (), [PickleDump obj path], s\<lparr>files := (files s)(path \<mapsto> pickle_dumps env obj)\<rparr>)"

text \<open>\<^verbatim>\<open>open(path, 'rb')\<close> raises for a missing file; \<^verbatim>\<open>pickle.load\<close> raises for a content it cannot read.\<close>

definition pickle_load ::
  "('j, 'c, 'b) collaborators \<Rightarrow> string \<Rightarrow> ('c list, 'j, 'c, 'b) io" where
  "pickle_load env path s =
     call (PickleLoad path)
       (case files s path of
          None \<Rightarrow> Inl (FileNotFoundError path)
        | Some b \<Rightarrow> pickle_loads env b) s"

definition create_cases ::
  "args \<Rightarrow> config \<Rightarrow> ('j, 'c, 'b) collaborators \<Rightarrow> 'j list \<Rightarrow> ('c list, 'j, 'c, 'b) io" where
  "create_cases args config_data env jsons =
     bnd (call ErrorFixerInit (Inr ())) (\<lambda>error_fixer.
       bnd (yield_cases env jsons (exclude_normal_variants config_data)) (\<lambda>case_objs.
         bnd (call (CorrectReferenceTranscripts case_objs)
                (correct_reference_transcripts env case_objs)) (\<lambda>case_objs.
           bnd (if dump_intermediate config_data
                then pickle_dump env case_objs ''case_cleaned.p'' else ret ()) (\<lambda>_.
             ret case_objs))))"

definition phenomize ::
  "config \<Rightarrow> ('j, 'c, 'b) collaborators \<Rightarrow> 'c list \<Rightarrow> ('c list, 'j, 'c, 'b) io" where
  "phenomize config_data env cases =
     bnd (call PhenomizerInit (Inr ())) (\<lambda>phen.
       bnd (yield_phenomized env cases) (\<lambda>cases.
         bnd (if dump_intermediate config_data
              then pickle_dump env cases ''case_phenomized.p'' else ret ()) (\<lambda>_.
           ret cases)))"

definition convert_to_old_format ::
  "args \<Rightarrow> config \<Rightarrow> ('j, 'c, 'b) collaborators \<Rightarrow> 'c list \<Rightarrow> (unit, 'j, 'c, 'b) io" where
  "convert_to_old_format args config_data env cases =
     (let destination = (if output_arg args \<noteq> [] then output_arg args else output_path config_data) in
      bnd (call OmimInit (Inr ())) (\<lambda>omim_obj.
        bnd (yield_old_json env cases destination) (\<lambda>_. ret ())))"

definition main ::
  "config \<Rightarrow> ('j, 'c, 'b) collaborators \<Rightarrow> args \<Rightarrow> (unit, 'j, 'c, 'b) io" where
  "main config_data env args =
     bnd (case pickle args of
            None \<Rightarrow> bnd (create_jsons args config_data env) (create_cases args config_data env)
          | Some p \<Rightarrow>
              if \<not> truthy (Some p)
              then bnd (create_jsons args config_data env) (create_cases args config_data env)
              else pickle_load env p)
       (\<lambda>cases.
          bnd (if entry args = ''pheno'' then phenomize config_data env cases else ret cases)
            (convert_to_old_format args config_data env))"

subsection \<open>Reading a run\<close>

text \<open>The three components of what a function of the script returns.\<close>

definition outcome :: "'r \<times> 'e \<times> 's \<Rightarrow> 'r" where
  "outcome x = fst x"

definition calls :: "'r \<times> 'e \<times> 's \<Rightarrow> 'e" where
  "calls x = fst (snd x)"

definition store_after :: "'r \<times> 'e \<times> 's \<Rightarrow> 's" where
  "store_after x = snd (snd x)"

text \<open>The stage of the pipeline a call belongs to.\<close>

datatype stage = Acquisition | ParseFilter | CaseBuilder | Checkpoint | Phenomization | Export

fun stage_of :: "('j, 'c) event \<Rightarrow> stage" where
  "stage_of BackupS3Folder = Acquisition"
| "stage_of (Listdir d) = Acquisition"
| "stage_of (FromFile p c) = ParseFilter"
| "stage_of (Print l n) = ParseFilter"
| "stage_of ErrorFixerInit = CaseBuilder"
| "stage_of (NewCase j x) = CaseBuilder"
| "stage_of (CorrectReferenceTranscripts cs) = CaseBuilder"
| "stage_of (PickleDump cs p) = Checkpoint"
| "stage_of (PickleLoad p) = Checkpoint"
| "stage_of PhenomizerInit = Phenomization"
| "stage_of (Phenomize c) = Phenomization"
| "stage_of OmimInit = Export"
| "stage_of (SaveOldJson c d) = Export"

text \<open>The files written by \<^verbatim>\<open>pickle.dump\<close>, the submissions read, the batches corrected,
  the export destinations and the counts printed, in the order of the calls.\<close>

fun dump_paths :: "('j, 'c) event list \<Rightarrow> string list" where
  "dump_paths [] = []"
| "dump_paths (PickleDump cs p # evs) = p # dump_paths evs"
| "dump_paths (ev # evs) = dump_paths evs"

fun from_file_calls :: "('j, 'c) event list \<Rightarrow> (string \<times> string) list" where
  "from_file_calls [] = []"
| "from_file_calls (FromFile p c # evs) = (p, c) # from_file_calls evs"
| "from_file_calls (ev # evs) = from_file_calls evs"

fun correction_calls :: "('j, 'c) event list \<Rightarrow> 'c list list" where
  "correction_calls [] = []"
| "correction_calls (CorrectReferenceTranscripts cs # evs) = cs # correction_calls evs"
| "correction_calls (ev # evs) = correction_calls evs"

fun export_calls :: "('j, 'c) event list \<Rightarrow> ('c \<times> string) list" where
  "export_calls [] = []"
| "export_calls (SaveOldJson c d # evs) = (c, d) # export_calls evs"
| "export_calls (ev # evs) = export_calls evs"

fun prints :: "('j, 'c) event list \<Rightarrow> (string \<times> nat) list" where
  "prints [] = []"
| "prints (Print l n # evs) = (l, n) # prints evs"
| "prints (ev # evs) = prints evs"

text \<open>The files of the store after the dumps among the calls have been done on it.\<close>

fun replay ::
  "('j, 'c, 'b) collaborators \<Rightarrow> ('j, 'c) event list \<Rightarrow> (string \<rightharpoonup> 'b) \<Rightarrow> (string \<rightharpoonup> 'b)" where
  "replay env [] fs = fs"
| "replay env (PickleDump cs p # evs) fs = replay env evs (fs(p \<mapsto> pickle_dumps env cs))"
| "replay env (ev # evs) fs = replay env evs fs"

text \<open>
  The first statement of \<^verbatim>\<open>main\<close> after the set-up, the \<^verbatim>\<open>if not args.pickle\<close>: it
  builds the collection or loads it, and leaves the pipeline in the state \<^verbatim>\<open>BUILT\<close>
  of the specification.
\<close>

definition build_or_load ::
  "config \<Rightarrow> ('j, 'c, 'b) collaborators \<Rightarrow> args \<Rightarrow> ('c list, 'j, 'c, 'b) io" where
  "build_or_load config_data env args =
     (if \<not> truthy (pickle args)
      then bnd (create_jsons args config_data env) (create_cases args config_data env)
      else pickle_load env (the (pickle args)))"

text \<open>Properties of a function of the script over all stores: what it may call, and
  that it changes the files through \<^verbatim>\<open>pickle.dump\<close> alone.\<close>

definition emits :: "(('j, 'c) event \<Rightarrow> bool) \<Rightarrow> ('a, 'j, 'c, 'b) io \<Rightarrow> bool" where
  "emits P m = (\<forall>s. list_all P (calls (m s)))"

definition journaled :: "('j, 'c, 'b) collaborators \<Rightarrow> ('a, 'j, 'c, 'b) io \<Rightarrow> bool" where
  "journaled env m = (\<forall>s. files (store_after (m s)) = replay env (calls (m s)) (files s))"

subsection \<open>A sample installation\<close>

text \<open>
  Submissions and cases are numbers. The remote store holds three submissions and a text
  file; the submission 2 fails the rough check; the phenotype service raises for the
  case 666; a checkpoint is the list itself.
\<close>

definition sample_config :: config where
  "sample_config =
     \<lparr>download = True, dump_intermediate = True, download_location = ''cache'',
      corrected_location = ''corrected'', exclude_normal_variants = False,
      output_path = ''out''\<rparr>"

definition sample_env :: "(nat, nat, nat list) collaborators" where
  "sample_env =
     \<lparr>backup_s3_folder = (\<lambda>d. Inr (d(''cache/cases'' \<mapsto> [''1.json'', ''2.json'', ''3.json'', ''notes.txt'']))),
      from_file = (\<lambda>p c. if p = ''cache/cases/1.json'' then Inr 1
                          else if p = ''cache/cases/2.json'' then Inr 2
                          else if p = ''cache/cases/3.json'' then Inr 3
                          else if p = ''one.json'' then Inr 4
                          else Inl (FileNotFoundError p)),
      json_check = (\<lambda>j. (j \<noteq> 2, [])),
      new_case = (\<lambda>j x. Inr (10 * j)),
      correct_reference_transcripts = (\<lambda>cs. Inr (map Suc cs)),
      case_phenomize = (\<lambda>c. if c = 666 then Inl (Raised ''phenomizer'') else Inr (c + 100)),
      old_json_save = (\<lambda>c d. None),
      pickle_dumps = (\<lambda>cs. cs),
      pickle_loads = Inr\<rparr>"

definition empty_store :: "nat list store" where
  "empty_store = \<lparr>dirs = Map.empty, files = Map.empty\<rparr>"

definition checkpoint_store :: "nat list store" where
  "checkpoint_store = \<lparr>dirs = Map.empty, files = [''cp.p'' \<mapsto> [1, 666, 3], ''ok.p'' \<mapsto> [5, 6]]\<rparr>"

definition fresh_args :: args where
  "fresh_args = parse_arguments_default"

definition single_args :: args where
  "single_args = parse_arguments_default\<lparr>single := Some ''one.json''\<rparr>"

definition resume_args :: "string \<Rightarrow> args" where
  "resume_args p = parse_arguments_default\<lparr>pickle := Some p\<rparr>"

section \<open>Properties\<close>

subsection \<open>Sequencing\<close>

lemma bnd_Inl: "m s = (Inl e, evs, s') \<Longrightarrow> bnd m f s = (Inl e, evs, s')"
  by (simp add: bnd_def)

lemma bnd_Inr:
  "m s = (Inr a, evs, s') \<Longrightarrow>
   bnd m f s = (outcome (f a s'), evs @ calls (f a s'), store_after (f a s'))"
  by (simp add: bnd_def outcome_def calls_def store_after_def split: prod.splits)

lemma bnd_ret: "bnd (ret a) f s = f a s"
  by (simp add: bnd_def ret_def split: prod.splits)

lemma bnd_assoc: "bnd (bnd m f) g = bnd m (\<lambda>a. bnd (f a) g)"
  by (rule ext) (simp add: bnd_def split: prod.splits sum.splits)

lemma triple_eq: "x = (outcome x, calls x, store_after x)"
  by (simp add: outcome_def calls_def store_after_def)

lemma parts [simp]:
  "outcome (r, evs, s) = r" "calls (r, evs, s) = evs" "store_after (r, evs, s) = s"
  by (simp_all add: outcome_def calls_def store_after_def)

subsection \<open>Loops whose body is one call\<close>

text \<open>Every generator of the script makes one call for each element.\<close>

lemma progress_bar_call_Nil:
  "progress_bar l (\<lambda>x. call (ev x) (f x)) [] s = (Inr [], [], s)"
  by (simp add: ret_def)

lemma progress_bar_call_Cons:
  "progress_bar l (\<lambda>x. call (ev x) (f x)) (x # xs) s =
     (case f x of
        Inl e \<Rightarrow> (Inl e, [ev x], s)
      | Inr y \<Rightarrow>
          (case progress_bar l (\<lambda>x. call (ev x) (f x)) xs s of
             (Inl e, evs, s') \<Rightarrow> (Inl e, ev x # evs, s')
           | (Inr ys, evs, s') \<Rightarrow> (Inr (y # ys), ev x # evs, s')))"
  by (simp add: bnd_def call_def ret_def split: prod.splits sum.splits)

lemmas progress_bar_call = progress_bar_call_Nil progress_bar_call_Cons

declare progress_bar.simps [simp del]

lemma tripleI: "outcome x = r \<Longrightarrow> x = (r, calls x, store_after x)"
  by (cases x) (simp add: outcome_def calls_def store_after_def)

lemma progress_bar_call_store:
  "store_after (progress_bar l (\<lambda>x. call (ev x) (f x)) xs s) = s"
  by (induction xs) (auto simp: progress_bar_call split: prod.splits sum.splits)

lemma progress_bar_call_Inr:
  "\<forall>x \<in> set xs. f x = Inr (g x) \<Longrightarrow>
   progress_bar l (\<lambda>x. call (ev x) (f x)) xs s = (Inr (map g xs), map ev xs, s)"
  by (induction xs) (auto simp: progress_bar_call split: prod.splits sum.splits)

lemma progress_bar_call_InrD:
  "progress_bar l (\<lambda>x. call (ev x) (f x)) xs s = (Inr ys, evs, s') \<Longrightarrow>
   evs = map ev xs \<and> s' = s \<and> map f xs = map Inr ys"
  by (induction xs arbitrary: ys evs s')
     (auto simp: progress_bar_call split: prod.splits sum.splits)

lemma progress_bar_call_InlD:
  "progress_bar l (\<lambda>x. call (ev x) (f x)) xs s = (Inl e, evs, s') \<Longrightarrow>
   \<exists>n < length xs. evs = map ev (take (Suc n) xs) \<and> f (xs ! n) = Inl e \<and> s' = s
      \<and> (\<forall>i < n. \<exists>y. f (xs ! i) = Inr y)"
proof (induction xs arbitrary: evs)
  case Nil
  then show ?case by (simp add: progress_bar_call)
next
  case (Cons x xs)
  show ?case
  proof (cases "f x")
    case (Inl e0)
    with Cons.prems have "evs = [ev x]" "e0 = e" "s' = s"
      by (auto simp: progress_bar_call)
    with Inl show ?thesis by (intro exI [of _ 0]) simp
  next
    case (Inr y)
    obtain r evs1 s1 where run: "progress_bar l (\<lambda>x. call (ev x) (f x)) xs s = (r, evs1, s1)"
      by (metis prod_cases3)
    with Cons.prems Inr have r: "r = Inl e" and evs: "evs = ev x # evs1" and s1: "s1 = s'"
      by (auto simp: progress_bar_call split: sum.splits)
    from Cons.IH [of evs1] run r s1 obtain n where n: "n < length xs"
      "evs1 = map ev (take (Suc n) xs)" "f (xs ! n) = Inl e" "s' = s"
      "\<forall>i < n. \<exists>y. f (xs ! i) = Inr y"
      by auto
    show ?thesis
    proof (intro exI [of _ "Suc n"] conjI allI impI)
      fix i assume "i < Suc n"
      then show "\<exists>y. f ((x # xs) ! i) = Inr y"
        using n(5) Inr by (cases i) auto
    qed (use n evs in auto)
  qed
qed

lemma progress_bar_call_fails:
  "x \<in> set xs \<Longrightarrow> f x = Inl e \<Longrightarrow>
   \<exists>e'. outcome (progress_bar l (\<lambda>x. call (ev x) (f x)) xs s) = Inl e'"
  by (induction xs) (auto simp: progress_bar_call split: prod.splits sum.splits)

lemma progress_bar_call_calls:
  "\<exists>n \<le> length xs. calls (progress_bar l (\<lambda>x. call (ev x) (f x)) xs s) = map ev (take n xs)"
proof (cases "outcome (progress_bar l (\<lambda>x. call (ev x) (f x)) xs s)")
  case (Inl e)
  then have "progress_bar l (\<lambda>x. call (ev x) (f x)) xs s
      = (Inl e, calls (progress_bar l (\<lambda>x. call (ev x) (f x)) xs s),
         store_after (progress_bar l (\<lambda>x. call (ev x) (f x)) xs s))"
    by (rule tripleI)
  from progress_bar_call_InlD [OF this] show ?thesis
    by (metis Suc_leI)
next
  case (Inr ys)
  then have "progress_bar l (\<lambda>x. call (ev x) (f x)) xs s
      = (Inr ys, calls (progress_bar l (\<lambda>x. call (ev x) (f x)) xs s),
         store_after (progress_bar l (\<lambda>x. call (ev x) (f x)) xs s))"
    by (rule tripleI)
  from progress_bar_call_InrD [OF this] show ?thesis
    by (intro exI [of _ "length xs"]) simp
qed

subsection \<open>What a function may call, and how it changes the files\<close>

lemma emits_ret: "emits P (ret a)"
  by (simp add: emits_def ret_def)

lemma emits_call: "P ev \<Longrightarrow> emits P (call ev r)"
  by (simp add: emits_def call_def)

lemma emits_bnd: "emits P m \<Longrightarrow> (\<And>a. emits P (f a)) \<Longrightarrow> emits P (bnd m f)"
  unfolding emits_def
proof
  fix s
  assume m: "\<forall>s. list_all P (calls (m s))" and f: "\<And>a. \<forall>s. list_all P (calls (f a s))"
  obtain r evs s' where run: "m s = (r, evs, s')" by (metis prod_cases3)
  with m [rule_format, of s] have evs: "list_all P evs" by simp
  show "list_all P (calls (bnd m f s))"
  proof (cases r)
    case (Inl e)
    with run evs show ?thesis by (simp add: bnd_Inl)
  next
    case (Inr a)
    with run evs f [of a, rule_format, of s'] show ?thesis by (simp add: bnd_Inr)
  qed
qed

lemma emits_if: "emits P m \<Longrightarrow> emits P n \<Longrightarrow> emits P (if b then m else n)"
  by simp

lemma emits_progress_bar: "(\<And>x. emits P (body x)) \<Longrightarrow> emits P (progress_bar l body xs)"
  by (induction xs) (auto simp: progress_bar.simps intro!: emits_ret emits_bnd)

lemma emits_pickle_dump: "P (PickleDump cs p) \<Longrightarrow> emits P (pickle_dump env cs p)"
  by (simp add: emits_def pickle_dump_def)

lemma emits_pickle_load: "P (PickleLoad p) \<Longrightarrow> emits P (pickle_load env p)"
  by (simp add: emits_def pickle_load_def call_def)

lemma emits_listdir: "P (Listdir d) \<Longrightarrow> emits P (listdir d)"
  by (simp add: emits_def listdir_def call_def)

lemma emits_backup: "P BackupS3Folder \<Longrightarrow> emits P (backup env)"
  by (simp add: emits_def backup_def split: sum.splits)

lemma emitsD: "emits P m \<Longrightarrow> list_all P (calls (m s))"
  by (simp add: emits_def)

lemma emits_mono: "emits P m \<Longrightarrow> (\<And>ev. P ev \<Longrightarrow> Q ev) \<Longrightarrow> emits Q m"
  by (auto simp: emits_def list_all_iff)

lemma replay_append: "replay env (evs @ evs') fs = replay env evs' (replay env evs fs)"
proof (induction evs arbitrary: fs)
  case Nil
  show ?case by simp
next
  case (Cons ev evs)
  then show ?case by (cases ev) (simp_all del: fun_upd_apply)
qed

lemma journaled_ret: "journaled env (ret a)"
  by (simp add: journaled_def ret_def)

lemma journaled_call: "stage_of ev \<noteq> Checkpoint \<Longrightarrow> journaled env (call ev r)"
  by (cases ev) (simp_all add: journaled_def call_def)

lemma journaled_bnd:
  "journaled env m \<Longrightarrow> (\<And>a. journaled env (f a)) \<Longrightarrow> journaled env (bnd m f)"
  unfolding journaled_def
proof
  fix s
  assume m: "\<forall>s. files (store_after (m s)) = replay env (calls (m s)) (files s)"
    and f: "\<And>a. \<forall>s. files (store_after (f a s)) = replay env (calls (f a s)) (files s)"
  obtain r evs s' where run: "m s = (r, evs, s')" by (metis prod_cases3)
  with m [rule_format, of s] have evs: "files s' = replay env evs (files s)" by simp
  show "files (store_after (bnd m f s)) = replay env (calls (bnd m f s)) (files s)"
  proof (cases r)
    case (Inl e)
    with run evs show ?thesis by (simp add: bnd_Inl)
  next
    case (Inr a)
    with run evs f [of a, rule_format, of s'] show ?thesis
      by (simp add: bnd_Inr replay_append)
  qed
qed

lemma journaled_progress_bar:
  "(\<And>x. journaled env (body x)) \<Longrightarrow> journaled env (progress_bar l body xs)"
  by (induction xs) (auto simp: progress_bar.simps intro!: journaled_ret journaled_bnd)

lemma journaled_pickle_dump: "journaled env (pickle_dump env cs p)"
  by (simp add: journaled_def pickle_dump_def)

lemma journaled_pickle_load: "journaled env (pickle_load env p)"
  by (simp add: journaled_def pickle_load_def call_def)

lemma journaled_listdir: "journaled env (listdir d)"
  by (simp add: journaled_def listdir_def call_def)

lemma journaled_backup: "journaled env (backup env)"
  by (simp add: journaled_def backup_def split: sum.splits)

lemmas emits_intros = emits_ret emits_call emits_bnd emits_progress_bar emits_pickle_dump
  emits_pickle_load emits_listdir emits_backup

lemmas journaled_intros = journaled_ret journaled_call journaled_bnd journaled_progress_bar
  journaled_pickle_dump journaled_pickle_load journaled_listdir journaled_backup

lemma emits_json_from_directory:
  "P BackupS3Folder \<Longrightarrow> (\<And>d. P (Listdir d)) \<Longrightarrow> emits P (json_from_directory cfg env)"
  unfolding json_from_directory_def Let_def
  by (intro emits_bnd emits_if emits_intros) 

lemma emits_create_jsons:
  assumes "\<not> truthy (single args) \<Longrightarrow> P BackupS3Folder"
    and "\<And>d. \<not> truthy (single args) \<Longrightarrow> P (Listdir d)"
    and "\<And>p c. P (FromFile p c)" and "\<And>l n. P (Print l n)"
  shows "emits P (create_jsons args cfg env)"
proof (cases "truthy (single args)")
  case True
  then obtain p where p: "single args = Some p" "p \<noteq> []" by (cases "single args") auto
  show ?thesis
    unfolding create_jsons_def yield_jsons_def Let_def
    by (simp add: p split_def) (intro emits_bnd emits_intros assms)
next
  case False
  have j: "emits P (json_from_directory cfg env)"
    using assms False by (intro emits_json_from_directory)
  have eq: "(case single args of None \<Rightarrow> json_from_directory cfg env
      | Some p \<Rightarrow> if truthy (Some p) then ret ([p], []) else json_from_directory cfg env)
     = json_from_directory cfg env"
    using False by (cases "single args") auto
  show ?thesis
    unfolding create_jsons_def yield_jsons_def Let_def eq
    by (simp add: split_def) (intro emits_bnd emits_intros assms j)
qed


subsection \<open>The stages\<close>

lemma main_alt:
  "main cfg env args =
     bnd (build_or_load cfg env args) (\<lambda>cases.
       bnd (if entry args = ''pheno'' then phenomize cfg env cases else ret cases)
         (convert_to_old_format args cfg env))"
  by (cases "pickle args") (simp_all add: main_def build_or_load_def)

lemma emits_create_cases:
  assumes "P ErrorFixerInit" and "\<And>j x. P (NewCase j x)"
    and "\<And>cs. P (CorrectReferenceTranscripts cs)"
    and "\<And>cs. dump_intermediate cfg \<Longrightarrow> P (PickleDump cs ''case_cleaned.p'')"
  shows "emits P (create_cases args cfg env js)"
  unfolding create_cases_def yield_cases_def
  by (cases "dump_intermediate cfg") (auto intro!: emits_intros assms)

lemma emits_phenomize:
  assumes "P PhenomizerInit" and "\<And>c. P (Phenomize c)"
    and "\<And>cs. dump_intermediate cfg \<Longrightarrow> P (PickleDump cs ''case_phenomized.p'')"
  shows "emits P (phenomize cfg env cs)"
  unfolding phenomize_def yield_phenomized_def
  by (cases "dump_intermediate cfg") (auto intro!: emits_intros assms)

lemma emits_convert_to_old_format:
  assumes "P OmimInit"
    and "\<And>c. P (SaveOldJson c (if output_arg args \<noteq> [] then output_arg args else output_path cfg))"
  shows "emits P (convert_to_old_format args cfg env cs)"
  unfolding convert_to_old_format_def yield_old_json_def Let_def
  by (intro emits_intros assms)

lemma emits_build_or_load:
  assumes "\<not> truthy (pickle args) \<Longrightarrow> \<not> truthy (single args) \<Longrightarrow> P BackupS3Folder"
    and "\<And>d. \<not> truthy (pickle args) \<Longrightarrow> \<not> truthy (single args) \<Longrightarrow> P (Listdir d)"
    and "\<And>p c. \<not> truthy (pickle args) \<Longrightarrow> P (FromFile p c)"
    and "\<And>l n. \<not> truthy (pickle args) \<Longrightarrow> P (Print l n)"
    and "\<not> truthy (pickle args) \<Longrightarrow> P ErrorFixerInit"
    and "\<And>j x. \<not> truthy (pickle args) \<Longrightarrow> P (NewCase j x)"
    and "\<And>cs. \<not> truthy (pickle args) \<Longrightarrow> P (CorrectReferenceTranscripts cs)"
    and "\<And>cs. \<not> truthy (pickle args) \<Longrightarrow> dump_intermediate cfg
           \<Longrightarrow> P (PickleDump cs ''case_cleaned.p'')"
    and "\<And>p. pickle args = Some p \<Longrightarrow> p \<noteq> [] \<Longrightarrow> P (PickleLoad p)"
  shows "emits P (build_or_load cfg env args)"
proof (cases "truthy (pickle args)")
  case True
  then obtain p where p: "pickle args = Some p" "p \<noteq> []" by (cases "pickle args") auto
  with assms(9) show ?thesis
    by (simp add: build_or_load_def emits_pickle_load)
next
  case False
  have "emits P (create_jsons args cfg env)"
    using assms(1-4) False by (intro emits_create_jsons) auto
  moreover have "\<And>js. emits P (create_cases args cfg env js)"
    using assms(5-8) False by (intro emits_create_cases) auto
  ultimately show ?thesis
    using False by (simp add: build_or_load_def emits_bnd)
qed

lemma emits_main:
  assumes "\<not> truthy (pickle args) \<Longrightarrow> \<not> truthy (single args) \<Longrightarrow> P BackupS3Folder"
    and "\<And>d. \<not> truthy (pickle args) \<Longrightarrow> \<not> truthy (single args) \<Longrightarrow> P (Listdir d)"
    and "\<And>p c. \<not> truthy (pickle args) \<Longrightarrow> P (FromFile p c)"
    and "\<And>l n. \<not> truthy (pickle args) \<Longrightarrow> P (Print l n)"
    and "\<not> truthy (pickle args) \<Longrightarrow> P ErrorFixerInit"
    and "\<And>j x. \<not> truthy (pickle args) \<Longrightarrow> P (NewCase j x)"
    and "\<And>cs. \<not> truthy (pickle args) \<Longrightarrow> P (CorrectReferenceTranscripts cs)"
    and "\<And>cs. \<not> truthy (pickle args) \<Longrightarrow> dump_intermediate cfg
           \<Longrightarrow> P (PickleDump cs ''case_cleaned.p'')"
    and "\<And>p. pickle args = Some p \<Longrightarrow> p \<noteq> [] \<Longrightarrow> P (PickleLoad p)"
    and "entry args = ''pheno'' \<Longrightarrow> P PhenomizerInit"
    and "\<And>c. entry args = ''pheno'' \<Longrightarrow> P (Phenomize c)"
    and "\<And>cs. entry args = ''pheno'' \<Longrightarrow> dump_intermediate cfg
           \<Longrightarrow> P (PickleDump cs ''case_phenomized.p'')"
    and "P OmimInit"
    and "\<And>c. P (SaveOldJson c (if output_arg args \<noteq> [] then output_arg args else output_path cfg))"
  shows "emits P (main cfg env args)"
proof -
  have 1: "emits P (build_or_load cfg env args)"
    by (rule emits_build_or_load) (fact assms(1-9))+
  have 2: "emits P (if entry args = ''pheno'' then phenomize cfg env cs else ret cs)" for cs
    using assms(10-12) by (auto intro!: emits_phenomize emits_ret)
  have 3: "emits P (convert_to_old_format args cfg env cs)" for cs
    by (rule emits_convert_to_old_format) (fact assms(13-14))+
  show ?thesis
    unfolding main_alt by (intro emits_bnd 1 2 3)
qed

lemma journaled_create_jsons: "journaled env (create_jsons args cfg env)"
proof -
  have j: "journaled env (json_from_directory cfg env)"
    unfolding json_from_directory_def Let_def
    by (cases "download cfg") (auto intro!: journaled_intros)
  have "journaled env (case single args of None \<Rightarrow> json_from_directory cfg env
      | Some p \<Rightarrow> if truthy (Some p) then ret ([p], []) else json_from_directory cfg env)"
    using j by (cases "single args") (auto intro: journaled_ret)
  then show ?thesis
    unfolding create_jsons_def yield_jsons_def Let_def
    by (auto simp: split_def intro!: journaled_intros)
qed

lemma journaled_create_cases: "journaled env (create_cases args cfg env js)"
  unfolding create_cases_def yield_cases_def
  by (cases "dump_intermediate cfg") (auto intro!: journaled_intros)

lemma journaled_phenomize: "journaled env (phenomize cfg env cs)"
  unfolding phenomize_def yield_phenomized_def
  by (cases "dump_intermediate cfg") (auto intro!: journaled_intros)

lemma journaled_convert_to_old_format: "journaled env (convert_to_old_format args cfg env cs)"
  unfolding convert_to_old_format_def yield_old_json_def Let_def
  by (auto intro!: journaled_intros)

lemma journaled_build_or_load: "journaled env (build_or_load cfg env args)"
  unfolding build_or_load_def
  by (auto intro!: journaled_intros journaled_create_jsons journaled_create_cases)

lemma journaled_main: "journaled env (main cfg env args)"
  unfolding main_alt
  by (auto intro!: journaled_intros journaled_build_or_load journaled_phenomize
        journaled_convert_to_old_format)

lemma journaledD:
  "journaled env m \<Longrightarrow> files (store_after (m s)) = replay env (calls (m s)) (files s)"
  by (simp add: journaled_def)

lemma replay_other: "p \<notin> set (dump_paths evs) \<Longrightarrow> replay env evs fs p = fs p"
proof (induction evs arbitrary: fs)
  case Nil
  show ?case by simp
next
  case (Cons ev evs)
  then show ?case by (cases ev) (simp_all del: fun_upd_apply, simp)
qed

lemma replay_no_dump: "dump_paths evs = [] \<Longrightarrow> replay env evs fs = fs"
proof (induction evs arbitrary: fs)
  case Nil
  show ?case by simp
next
  case (Cons ev evs)
  then show ?case by (cases ev) simp_all
qed

lemma dump_paths_append: "dump_paths (evs @ evs') = dump_paths evs @ dump_paths evs'"
  by (induction evs rule: dump_paths.induct) simp_all

lemma dump_paths_list_all:
  "list_all (\<lambda>ev. p \<notin> set (dump_paths [ev])) evs \<longleftrightarrow> p \<notin> set (dump_paths evs)"
  by (induction evs rule: dump_paths.induct) simp_all

lemma export_calls_list_all:
  "list_all (\<lambda>ev. list_all Q (export_calls [ev])) evs \<Longrightarrow> list_all Q (export_calls evs)"
  by (induction evs rule: export_calls.induct) simp_all

section \<open>The claims\<close>

subsection \<open>C9: the destination of the export\<close>

text \<open>
  C9. Every call of the export, in any run, gets as its destination the value of
  \<^verbatim>\<open>--output\<close> when that value is not empty, and the configuration option
  \<^verbatim>\<open>conversion.output_path\<close> when it is the empty string, which is the default of
  \<^verbatim>\<open>--output\<close>.
\<close>

theorem export_destination:
  "\<forall>(c, d) \<in> set (export_calls (calls (main config_data env args s))).
     (output_arg args \<noteq> [] \<longrightarrow> d = output_arg args)
     \<and> (output_arg args = [] \<longrightarrow> d = output_path config_data)"
proof -
  let ?dest = "if output_arg args \<noteq> [] then output_arg args else output_path config_data"
  let ?P = "\<lambda>ev. list_all (\<lambda>(c, d). d = ?dest) (export_calls [ev])"
  have "emits ?P (main config_data env args)"
    by (intro emits_main) simp_all
  then have *: "list_all ?P (calls (main config_data env args s))"
    by (rule emitsD)
  from export_calls_list_all [OF *] show ?thesis
    by (auto simp: list_all_iff)
qed

text \<open>
  The sample run exports its two cases to \<^verbatim>\<open>out\<close>, the configured path, with the default
  arguments, and to \<^verbatim>\<open>dest\<close> with \<^verbatim>\<open>--output dest\<close>.
\<close>

theorem export_destination_witness:
  "export_calls (calls (main sample_config sample_env fresh_args empty_store)) = [(111, ''out''), (131, ''out'')]
   \<and> output_arg fresh_args = [] \<and> output_path sample_config = ''out''
   \<and> export_calls (calls (main sample_config sample_env (fresh_args\<lparr>output_arg := ''dest''\<rparr>) empty_store))
       = [(111, ''dest''), (131, ''dest'')]"
proof -
  have 1: "export_calls (calls (main sample_config sample_env fresh_args empty_store)) = [(111, ''out''), (131, ''out'')]"
    by code_simp
  have 2: "export_calls (calls (main sample_config sample_env (fresh_args\<lparr>output_arg := ''dest''\<rparr>) empty_store))
       = [(111, ''dest''), (131, ''dest'')]"
    by code_simp
  have 3: "output_arg fresh_args = [] \<and> output_path sample_config = ''out''"
    by (simp add: fresh_args_def parse_arguments_default_def sample_config_def)
  from export_destination [of sample_config sample_env fresh_args empty_store]
       export_destination [of sample_config sample_env "fresh_args\<lparr>output_arg := ''dest''\<rparr>" empty_store]
       1 2 3
  show ?thesis by simp
qed

subsection \<open>C10: no download with \<^verbatim>\<open>--single\<close>\<close>

text \<open>
  C10. When \<^verbatim>\<open>--single\<close> holds a path, no run calls \<^verbatim>\<open>download.backup_s3_folder\<close>,
  whatever the configuration option \<^verbatim>\<open>general.download\<close> is: the call is in
  \<^verbatim>\<open>json_from_directory\<close> alone, which \<^verbatim>\<open>create_jsons\<close> does not enter.
\<close>

theorem single_never_downloads:
  "truthy (single args) \<Longrightarrow> BackupS3Folder \<notin> set (calls (main config_data env args s))"
proof -
  assume single: "truthy (single args)"
  have "emits (\<lambda>ev. ev \<noteq> BackupS3Folder) (main config_data env args)"
    using single by (intro emits_main) simp_all
  then have "list_all (\<lambda>ev. ev \<noteq> BackupS3Folder) (calls (main config_data env args s))"
    by (rule emitsD)
  then show ?thesis
    by (auto simp: list_all_iff)
qed

text \<open>The sample configuration has \<^verbatim>\<open>download\<close> set.\<close>

theorem single_never_downloads_witness:
  "truthy (single single_args) \<and> download sample_config
   \<and> BackupS3Folder \<notin> set (calls (main sample_config sample_env single_args empty_store))"
proof -
  have h: "truthy (single single_args)"
    by (simp add: single_args_def)
  have d: "download sample_config"
    by (simp add: sample_config_def)
  from h d single_never_downloads [OF h] show ?thesis
    by blast
qed

subsection \<open>Runs of the stages\<close>

lemma bnd_call_Inr:
  "bnd (call ev (Inr a)) f s = (outcome (f a s), ev # calls (f a s), store_after (f a s))"
  by (simp add: bnd_def call_def split: prod.splits)

lemma bnd_call_unit:
  "bnd (call ev (Inr ())) f s = (outcome (f () s), ev # calls (f () s), store_after (f () s))"
  by (rule bnd_call_Inr)

lemma bnd_call_Inl: "bnd (call ev (Inl e)) f s = (Inl e, [ev], s)"
  by (simp add: bnd_def call_def)

lemma dump_tail:
  "bnd (if d then pickle_dump env cs p else ret ()) (\<lambda>_. ret cs) s =
     (if d then (Inr cs, [PickleDump cs p], s\<lparr>files := (files s)(p \<mapsto> pickle_dumps env cs)\<rparr>)
      else (Inr cs, [], s))"
  by (simp add: bnd_def pickle_dump_def ret_def)

lemma phenomize_Inl:
  assumes "yield_phenomized env cs s = (Inl e, evs, s')"
  shows "phenomize cfg env cs s = (Inl e, PhenomizerInit # evs, s')"
  by (simp add: phenomize_def bnd_call_unit bnd_Inl [where m = "yield_phenomized env cs", OF assms])

lemma phenomize_Inr:
  assumes "yield_phenomized env cs s = (Inr cs', evs, s')"
  shows "phenomize cfg env cs s =
    (if dump_intermediate cfg
     then (Inr cs', PhenomizerInit # evs @ [PickleDump cs' ''case_phenomized.p''],
           s'\<lparr>files := (files s')(''case_phenomized.p'' \<mapsto> pickle_dumps env cs')\<rparr>)
     else (Inr cs', PhenomizerInit # evs, s'))"
  by (simp add: phenomize_def bnd_call_unit bnd_Inr [where m = "yield_phenomized env cs", OF assms] dump_tail)

lemma yield_phenomized_fails:
  assumes "c \<in> set cs" and "case_phenomize env c = Inl e"
  shows "\<exists>e' n. n < length cs \<and> case_phenomize env (cs ! n) = Inl e'
     \<and> yield_phenomized env cs s = (Inl e', map Phenomize (take (Suc n) cs), s)"
proof -
  from progress_bar_call_fails [where f = "case_phenomize env" and ev = Phenomize
      and l = "''Phenomization''" and s = s, OF assms]
  obtain e' where "outcome (yield_phenomized env cs s) = Inl e'"
    by (auto simp: yield_phenomized_def)
  from tripleI [OF this] have "yield_phenomized env cs s =
      (Inl e', calls (yield_phenomized env cs s), store_after (yield_phenomized env cs s))" .
  from progress_bar_call_InlD [OF this [unfolded yield_phenomized_def]]
  obtain n where "n < length cs" "case_phenomize env (cs ! n) = Inl e'"
    "calls (yield_phenomized env cs s) = map Phenomize (take (Suc n) cs)"
    "store_after (yield_phenomized env cs s) = s"
    unfolding yield_phenomized_def [symmetric] by auto
  with \<open>yield_phenomized env cs s = _\<close> show ?thesis
    by auto
qed

lemma main_reached:
  assumes "build_or_load cfg env args s = (Inr cs, evs1, s1)"
  shows "main cfg env args s =
     (let x = bnd (if entry args = ''pheno'' then phenomize cfg env cs else ret cs)
                (convert_to_old_format args cfg env) s1
      in (outcome x, evs1 @ calls x, store_after x))"
  by (simp add: main_alt bnd_Inr [where m = "build_or_load cfg env args", OF assms] Let_def)


lemma emits_build_or_load_pre_pheno:
  "emits (\<lambda>ev. stage_of ev \<noteq> Export \<and> stage_of ev \<noteq> Phenomization
            \<and> ''case_phenomized.p'' \<notin> set (dump_paths [ev]))
     (build_or_load cfg env args)"
  by (intro emits_build_or_load) simp_all

subsection \<open>C1: a failing phenomization aborts the run\<close>

text \<open>
  C1. Take a run that has built or loaded its collection and enters the phenomization
  (\<^verbatim>\<open>--entry pheno\<close>). If the phenotype service raises for some case of the collection,
  wherever it stands in it, then \<^verbatim>\<open>main\<close> ends with an exception, no call of the export
  stage is made, \<^verbatim>\<open>pickle.dump\<close> is never called on \<^verbatim>\<open>case_phenomized.p\<close>, and that file
  is what it was before the run.
\<close>

theorem phenomize_failure_aborts:
  fixes env :: "('j, 'c, 'b) collaborators"
  assumes reach: "build_or_load config_data env args s = (Inr cs, evs1, s1)"
    and pheno: "entry args = ''pheno''"
    and c: "c \<in> set cs" and raises: "case_phenomize env c = Inl e"
  shows "\<exists>e'. outcome (main config_data env args s) = Inl e'
     \<and> list_all (\<lambda>ev. stage_of ev \<noteq> Export) (calls (main config_data env args s))
     \<and> ''case_phenomized.p'' \<notin> set (dump_paths (calls (main config_data env args s)))
     \<and> files (store_after (main config_data env args s)) ''case_phenomized.p''
         = files s ''case_phenomized.p''"
proof -
  let ?P = "\<lambda>ev::('j, 'c) event. stage_of ev \<noteq> Export \<and> stage_of ev \<noteq> Phenomization
            \<and> ''case_phenomized.p'' \<notin> set (dump_paths [ev])"
  from yield_phenomized_fails [OF c raises, of s1]
  obtain e' n where y: "yield_phenomized env cs s1 = (Inl e', map Phenomize (take (Suc n) cs), s1)"
    by blast
  have p: "phenomize config_data env cs s1
      = (Inl e', PhenomizerInit # map Phenomize (take (Suc n) cs), s1)"
    by (rule phenomize_Inl [OF y])
  have run: "main config_data env args s
      = (Inl e', evs1 @ PhenomizerInit # map Phenomize (take (Suc n) cs), s1)"
    by (simp add: main_reached [OF reach] pheno Let_def
          bnd_Inl [where m = "phenomize config_data env cs", OF p])
  have "list_all ?P (calls (build_or_load config_data env args s))"
    by (rule emitsD [OF emits_build_or_load_pre_pheno])
  then have evs1: "list_all ?P evs1"
    by (simp add: reach)
  then have 1: "list_all (\<lambda>ev. stage_of ev \<noteq> Export) evs1"
    and "list_all (\<lambda>ev. ''case_phenomized.p'' \<notin> set (dump_paths [ev])) evs1"
    by (simp_all add: list_all_iff)
  then have 2: "''case_phenomized.p'' \<notin> set (dump_paths evs1)"
    by (simp add: dump_paths_list_all)
  have 3: "dump_paths (map Phenomize xs) = []" for xs :: "'c list"
    by (induction xs) simp_all
  have 4: "list_all (\<lambda>ev. stage_of ev \<noteq> Export) (map Phenomize xs)" for xs :: "'c list"
    by (induction xs) simp_all
  have "files s1 = replay env evs1 (files s)"
    using journaledD [OF journaled_build_or_load [of env config_data args], where s = s]
    by (simp add: reach)
  then have 5: "files s1 ''case_phenomized.p'' = files s ''case_phenomized.p''"
    by (simp add: replay_other [OF 2])
  show ?thesis
    by (simp add: run 1 2 3 4 5 dump_paths_append)
qed

text \<open>
  The checkpoint \<^verbatim>\<open>cp.p\<close> of the sample holds three cases, and the service raises on the
  second: the first case has been phenomized, the third is never reached.
\<close>

theorem phenomize_failure_aborts_witness:
  "build_or_load sample_config sample_env (resume_args ''cp.p'') checkpoint_store
     = (Inr [1, 666, 3], [PickleLoad ''cp.p''], checkpoint_store)
   \<and> outcome (main sample_config sample_env (resume_args ''cp.p'') checkpoint_store)
       = Inl (Raised ''phenomizer'')
   \<and> calls (main sample_config sample_env (resume_args ''cp.p'') checkpoint_store)
       = [PickleLoad ''cp.p'', PhenomizerInit, Phenomize 1, Phenomize 666]
   \<and> files (store_after (main sample_config sample_env (resume_args ''cp.p'') checkpoint_store))
        ''case_phenomized.p'' = None"
proof -
  have reach: "build_or_load sample_config sample_env (resume_args ''cp.p'') checkpoint_store
     = (Inr [1, 666, 3], [PickleLoad ''cp.p''], checkpoint_store)"
    by (simp add: build_or_load_def resume_args_def parse_arguments_default_def pickle_load_def
          call_def checkpoint_store_def sample_env_def)
  have pheno: "entry (resume_args ''cp.p'') = ''pheno''"
    by (simp add: resume_args_def parse_arguments_default_def)
  have c: "(666::nat) \<in> set [1, 666, 3]"
    by simp
  have raises: "case_phenomize sample_env 666 = Inl (Raised ''phenomizer'')"
    by (simp add: sample_env_def)
  have o: "outcome (main sample_config sample_env (resume_args ''cp.p'') checkpoint_store)
       = Inl (Raised ''phenomizer'')"
    by code_simp
  have t: "calls (main sample_config sample_env (resume_args ''cp.p'') checkpoint_store)
       = [PickleLoad ''cp.p'', PhenomizerInit, Phenomize 1, Phenomize 666]"
    by code_simp
  have f: "files checkpoint_store ''case_phenomized.p'' = None"
    by (simp add: checkpoint_store_def)
  from phenomize_failure_aborts [OF reach pheno c raises] reach o t f
  show ?thesis by simp
qed

subsection \<open>Runs of \<^verbatim>\<open>create_jsons\<close>\<close>

lemma bnd_InrD:
  assumes "bnd m f s = (Inr b, evs, s')"
  obtains a evs1 s1 evs2 where "m s = (Inr a, evs1, s1)" "f a s1 = (Inr b, evs2, s')"
    "evs = evs1 @ evs2"
  using assms by (auto simp: bnd_def split: prod.splits sum.splits)

lemma prints_append: "prints (evs @ evs') = prints evs @ prints evs'"
  by (induction evs rule: prints.induct) simp_all

lemma from_file_calls_append:
  "from_file_calls (evs @ evs') = from_file_calls evs @ from_file_calls evs'"
  by (induction evs rule: from_file_calls.induct) simp_all

lemma acquisition_only:
  "list_all (\<lambda>ev. stage_of ev = Acquisition) evs \<Longrightarrow> prints evs = [] \<and> from_file_calls evs = []"
  by (induction evs rule: prints.induct) simp_all

lemma from_file_calls_map: "from_file_calls (map (\<lambda>f. FromFile f c) fs) = map (\<lambda>f. (f, c)) fs"
  by (induction fs) simp_all

lemma prints_map_FromFile: "prints (map (\<lambda>f. FromFile f c) fs) = []"
  by (induction fs) simp_all

lemma emits_json_files:
  "emits (\<lambda>ev. stage_of ev = Acquisition)
     (case single args of None \<Rightarrow> json_from_directory cfg env
      | Some p \<Rightarrow> if truthy (Some p) then ret ([p], []) else json_from_directory cfg env)"
proof -
  have "emits (\<lambda>ev. stage_of ev = Acquisition) (json_from_directory cfg env)"
    by (intro emits_json_from_directory) simp_all
  then show ?thesis
    by (cases "single args") (auto intro: emits_ret)
qed

lemma create_jsons_single:
  assumes "single args = Some p" and "p \<noteq> []"
  shows "create_jsons args cfg env s =
     (case from_file env p [] of
        Inl e \<Rightarrow> (Inl e, [FromFile p []], s)
      | Inr j \<Rightarrow>
          (Inr (filter (\<lambda>j. fst (json_check env j)) [j]),
           [FromFile p [], Print ''Unfiltered'' 1,
            Print ''Filtered rough criteria'' (length (filter (\<lambda>j. fst (json_check env j)) [j]))],
           s))"
proof (cases "from_file env p []")
  case (Inl e)
  then have "yield_jsons env [p] [] s = (Inl e, [FromFile p []], s)"
    by (simp add: yield_jsons_def progress_bar_call)
  then show ?thesis
    using assms Inl
    by (simp add: create_jsons_def bnd_ret bnd_Inl [where m = "yield_jsons env [p] []"])
next
  case (Inr j)
  then have "yield_jsons env [p] [] s = (Inr [j], [FromFile p []], s)"
    by (simp add: yield_jsons_def progress_bar_call)
  then show ?thesis
    using assms Inr
    by (simp add: create_jsons_def bnd_ret bnd_Inr [where m = "yield_jsons env [p] []"]
          bnd_call_unit Let_def ret_def)
qed

subsection \<open>C2: the counts of the rough filter\<close>

text \<open>
  C2. When \<^verbatim>\<open>create_jsons\<close> returns, it has printed two counts, \<^verbatim>\<open>Unfiltered\<close> and then
  \<^verbatim>\<open>Filtered rough criteria\<close>. The first is the number of submissions loaded, one for
  each call of \<^verbatim>\<open>NewJson.from_file\<close>; the second is the number of those whose
  \<^verbatim>\<open>check()[0]\<close> holds, which is also the number of submissions returned, and it is at
  most the first.
\<close>

theorem filtered_count:
  fixes env :: "('j, 'c, 'b) collaborators"
  assumes "create_jsons args config_data env s = (Inr filtered_new, evs, s')"
  shows "\<exists>new_json_objs.
      map (\<lambda>(json_file, corrected). from_file env json_file corrected) (from_file_calls evs)
        = map Inr new_json_objs
    \<and> prints evs = [(''Unfiltered'', length new_json_objs),
                    (''Filtered rough criteria'', length filtered_new)]
    \<and> filtered_new = filter (\<lambda>j. fst (json_check env j)) new_json_objs
    \<and> length filtered_new \<le> length new_json_objs
    \<and> length filtered_new = length (filter (\<lambda>j. fst (json_check env j)) new_json_objs)"
proof -
  from assms [unfolded create_jsons_def]
  obtain src evs0 s0 evs1 where
    src: "(case single args of None \<Rightarrow> json_from_directory config_data env
      | Some p \<Rightarrow> if truthy (Some p) then ret ([p], []) else json_from_directory config_data env) s
       = (Inr src, evs0, s0)"
    and rest: "(case src of (json_files, corrected) \<Rightarrow>
        bnd (yield_jsons env json_files corrected) (\<lambda>new_json_objs.
          bnd (call (Print ''Unfiltered'' (length new_json_objs)) (Inr ())) (\<lambda>_.
            let filtered_new = filter (\<lambda>j. fst (json_check env j)) new_json_objs in
            bnd (call (Print ''Filtered rough criteria'' (length filtered_new)) (Inr ())) (\<lambda>_.
              ret filtered_new)))) s0 = (Inr filtered_new, evs1, s')"
    and evs: "evs = evs0 @ evs1"
    by (rule bnd_InrD)
  obtain json_files corrected where pair: "src = (json_files, corrected)"
    by (cases src)
  from rest [unfolded pair prod.case]
  obtain new_json_objs evs2 s2 evs3 where
    y: "yield_jsons env json_files corrected s0 = (Inr new_json_objs, evs2, s2)"
    and tail: "bnd (call (Print ''Unfiltered'' (length new_json_objs)) (Inr ())) (\<lambda>_.
            let filtered_new = filter (\<lambda>j. fst (json_check env j)) new_json_objs in
            bnd (call (Print ''Filtered rough criteria'' (length filtered_new)) (Inr ())) (\<lambda>_.
              ret filtered_new)) s2 = (Inr filtered_new, evs3, s')"
    and evs1: "evs1 = evs2 @ evs3"
    by (rule bnd_InrD)
  from tail have filtered: "filtered_new = filter (\<lambda>j. fst (json_check env j)) new_json_objs"
    and evs3: "evs3 = [Print ''Unfiltered'' (length new_json_objs),
                       Print ''Filtered rough criteria'' (length filtered_new)]"
    by (auto simp: bnd_call_unit Let_def ret_def)
  from progress_bar_call_InrD [OF y [unfolded yield_jsons_def]]
  have evs2: "evs2 = map (\<lambda>f. FromFile f corrected) json_files"
    and loaded: "map (\<lambda>f. from_file env f corrected) json_files = map Inr new_json_objs"
    by simp_all
  have "list_all (\<lambda>ev. stage_of ev = Acquisition) evs0"
    using emitsD [OF emits_json_files [where args = args and cfg = config_data and env = env],
        where s = s]
    by (simp add: src)
  then have evs0: "prints evs0 = []" "from_file_calls evs0 = []"
    by (simp_all add: acquisition_only)
  have "from_file_calls evs = map (\<lambda>f. (f, corrected)) json_files"
    by (simp add: evs evs1 evs2 evs3 evs0 from_file_calls_append from_file_calls_map)
  then have 1: "map (\<lambda>(json_file, corrected). from_file env json_file corrected) (from_file_calls evs)
        = map Inr new_json_objs"
    using loaded by (simp add: comp_def)
  have 2: "prints evs = [(''Unfiltered'', length new_json_objs),
                    (''Filtered rough criteria'', length filtered_new)]"
    by (simp add: evs evs1 evs2 evs3 evs0 prints_append prints_map_FromFile)
  from 1 2 filtered show ?thesis
    by (intro exI [of _ new_json_objs]) simp
qed

text \<open>The sample: three submissions loaded, two of them pass.\<close>

theorem filtered_count_witness:
  "outcome (create_jsons fresh_args sample_config sample_env empty_store) = Inr [1, 3]
   \<and> prints (calls (create_jsons fresh_args sample_config sample_env empty_store))
        = [(''Unfiltered'', 3), (''Filtered rough criteria'', 2)]
   \<and> (\<exists>new_json_objs.
        map (\<lambda>(json_file, corrected). from_file sample_env json_file corrected)
          (from_file_calls (calls (create_jsons fresh_args sample_config sample_env empty_store)))
          = map Inr new_json_objs
        \<and> length new_json_objs = 3
        \<and> length (filter (\<lambda>j. fst (json_check sample_env j)) new_json_objs) = 2)"
proof -
  have o: "outcome (create_jsons fresh_args sample_config sample_env empty_store) = Inr [1, 3]"
    by code_simp
  have p: "prints (calls (create_jsons fresh_args sample_config sample_env empty_store))
        = [(''Unfiltered'', 3), (''Filtered rough criteria'', 2)]"
    by code_simp
  from filtered_count [OF tripleI [OF o]] o p show ?thesis
    by auto
qed

subsection \<open>C5: one submission with \<^verbatim>\<open>--single\<close>\<close>

text \<open>
  C5. When \<^verbatim>\<open>--single\<close> holds a path, \<^verbatim>\<open>create_jsons\<close> calls \<^verbatim>\<open>NewJson.from_file\<close> once,
  on that path and with the empty string for the directory of corrected submissions; it
  makes no call of the acquisition stage (no download, no \<^verbatim>\<open>os.listdir\<close>) and leaves
  the directories as they are.
\<close>

theorem single_one_submission:
  assumes "single args = Some p" and "p \<noteq> []"
  shows "from_file_calls (calls (create_jsons args config_data env s)) = [(p, [])]
     \<and> list_all (\<lambda>ev. stage_of ev \<noteq> Acquisition) (calls (create_jsons args config_data env s))
     \<and> dirs (store_after (create_jsons args config_data env s)) = dirs s"
  by (cases "from_file env p []") (simp_all add: create_jsons_single [OF assms])

text \<open>The sample configuration names a directory of corrected submissions; it is not passed on.\<close>

theorem single_one_submission_witness:
  "single single_args = Some ''one.json''
   \<and> calls (create_jsons single_args sample_config sample_env empty_store)
      = [FromFile ''one.json'' [], Print ''Unfiltered'' 1, Print ''Filtered rough criteria'' 1]
   \<and> corrected_location sample_config = ''corrected''
   \<and> from_file_calls (calls (create_jsons single_args sample_config sample_env empty_store))
      = [(''one.json'', [])]"
proof -
  have 1: "single single_args = Some ''one.json''"
    by (simp add: single_args_def)
  have 2: "''one.json'' \<noteq> []"
    by simp
  have 3: "calls (create_jsons single_args sample_config sample_env empty_store)
      = [FromFile ''one.json'' [], Print ''Unfiltered'' 1, Print ''Filtered rough criteria'' 1]"
    by code_simp
  have 4: "corrected_location sample_config = ''corrected''"
    by (simp add: sample_config_def)
  from single_one_submission [OF 1 2, of sample_config sample_env empty_store] 1 3 4
  show ?thesis by simp
qed

subsection \<open>Runs of the export and of a resumed \<^verbatim>\<open>main\<close>\<close>

lemma calls_bnd_prefix: "\<exists>evs. calls (bnd m f s) = calls (m s) @ evs"
  by (cases "m s" rule: prod_cases3) (auto simp: bnd_def split: sum.splits prod.splits)

lemma phenomize_calls_hd: "\<exists>evs. calls (phenomize cfg env cs s) = PhenomizerInit # evs"
  by (simp add: phenomize_def bnd_call_unit)

lemma yield_old_json_InrD:
  assumes "yield_old_json env cs d s = (Inr us, evs, s')"
  shows "evs = map (\<lambda>c. SaveOldJson c d) cs \<and> s' = s"
  using progress_bar_call_InrD [OF assms [unfolded yield_old_json_def]] by simp

lemma convert_to_old_format_InrD:
  assumes "convert_to_old_format args cfg env cs s = (Inr u, evs, s')"
  shows "evs = OmimInit # map (\<lambda>c. SaveOldJson c
           (if output_arg args \<noteq> [] then output_arg args else output_path cfg)) cs \<and> s' = s"
proof -
  let ?d = "if output_arg args \<noteq> [] then output_arg args else output_path cfg"
  obtain r evs1 s1 where y: "yield_old_json env cs ?d s = (r, evs1, s1)"
    by (metis prod_cases3)
  show ?thesis
  proof (cases r)
    case (Inl e)
    with assms y show ?thesis
      by (simp add: convert_to_old_format_def Let_def bnd_call_unit
            bnd_Inl [where m = "yield_old_json env cs ?d"])
  next
    case (Inr us)
    with assms y yield_old_json_InrD [of env cs ?d s us evs1 s1] show ?thesis
      by (simp add: convert_to_old_format_def Let_def bnd_call_unit
            bnd_Inr [where m = "yield_old_json env cs ?d"] ret_def)
  qed
qed

lemma export_calls_append: "export_calls (evs @ evs') = export_calls evs @ export_calls evs'"
  by (induction evs rule: export_calls.induct) simp_all

lemma export_calls_map: "export_calls (map (\<lambda>c. SaveOldJson c d) cs) = map (\<lambda>c. (c, d)) cs"
  by (induction cs) simp_all

lemma export_calls_none:
  "list_all (\<lambda>ev. stage_of ev \<noteq> Export) evs \<Longrightarrow> export_calls evs = []"
  by (induction evs rule: export_calls.induct) simp_all

lemma phenomize_InrD:
  assumes "phenomize cfg env cs s = (Inr cs', evs, s')"
  shows "map (case_phenomize env) cs = map Inr cs' \<and> list_all (\<lambda>ev. stage_of ev \<noteq> Export) evs"
proof -
  obtain r evs1 s1 where y: "yield_phenomized env cs s = (r, evs1, s1)"
    by (metis prod_cases3)
  have ex: "list_all (\<lambda>ev. stage_of ev \<noteq> Export) evs"
    using emitsD [OF emits_phenomize [where P = "\<lambda>ev. stage_of ev \<noteq> Export"
        and cfg = cfg and env = env and cs = cs], where s = s] assms by simp
  show ?thesis
  proof (cases r)
    case (Inl e)
    with assms y phenomize_Inl [of env cs s e evs1 s1 cfg] show ?thesis by simp
  next
    case (Inr cs1)
    with assms y phenomize_Inr [of env cs s cs1 evs1 s1 cfg] have "cs1 = cs'"
      by (simp split: if_splits)
    with Inr y progress_bar_call_InrD [OF y [unfolded yield_phenomized_def Inr]] ex
    show ?thesis by simp
  qed
qed

lemma main_resumed:
  assumes "pickle args = Some p" and "p \<noteq> []" and "entry args = ''pheno''"
  shows "main cfg env args =
     bnd (pickle_load env p) (\<lambda>cases.
       bnd (phenomize cfg env cases) (convert_to_old_format args cfg env))"
  using assms by (simp add: main_def)

subsection \<open>C3: resuming from a checkpoint\<close>

text \<open>
  C3. With a path in \<^verbatim>\<open>--pickle\<close> and the entry point \<^verbatim>\<open>pheno\<close>, a run makes no call of
  the acquisition, of the parsing and filtering, or of the case builder: no download, no
  \<^verbatim>\<open>os.listdir\<close>, no \<^verbatim>\<open>from_file\<close>, no \<^verbatim>\<open>Case\<close>, no correction of transcripts. The run
  is the load of the checkpoint, the phenomization of the loaded collection and the
  export of what the phenomization returns; when it ends normally, the cases exported
  are, in order, the phenomized cases of the collection that \<^verbatim>\<open>pickle.load\<close> returned.
\<close>

theorem resume_skips_build:
  fixes env :: "('j, 'c, 'b) collaborators"
  assumes p: "pickle args = Some p" "p \<noteq> []" and pheno: "entry args = ''pheno''"
  shows "list_all (\<lambda>ev. stage_of ev \<noteq> Acquisition \<and> stage_of ev \<noteq> ParseFilter
                         \<and> stage_of ev \<noteq> CaseBuilder)
           (calls (main config_data env args s))
     \<and> main config_data env args s =
         bnd (pickle_load env p) (\<lambda>cases.
           bnd (phenomize config_data env cases) (convert_to_old_format args config_data env)) s
     \<and> (outcome (main config_data env args s) = Inr () \<longrightarrow>
          (\<exists>b cs cs'. files s p = Some b \<and> pickle_loads env b = Inr cs
             \<and> map (case_phenomize env) cs = map Inr cs'
             \<and> map fst (export_calls (calls (main config_data env args s))) = cs'))"
proof (intro conjI impI)
  have "emits (\<lambda>ev. stage_of ev \<noteq> Acquisition \<and> stage_of ev \<noteq> ParseFilter
                         \<and> stage_of ev \<noteq> CaseBuilder) (main config_data env args)"
    using p by (intro emits_main) simp_all
  then show "list_all (\<lambda>ev. stage_of ev \<noteq> Acquisition \<and> stage_of ev \<noteq> ParseFilter
                         \<and> stage_of ev \<noteq> CaseBuilder) (calls (main config_data env args s))"
    by (rule emitsD)
next
  show eq: "main config_data env args s =
         bnd (pickle_load env p) (\<lambda>cases.
           bnd (phenomize config_data env cases) (convert_to_old_format args config_data env)) s"
    by (simp add: main_resumed [OF p pheno])
next
  assume ok: "outcome (main config_data env args s) = Inr ()"
  have "bnd (pickle_load env p) (\<lambda>cases.
           bnd (phenomize config_data env cases) (convert_to_old_format args config_data env)) s
        = (Inr (), calls (main config_data env args s), store_after (main config_data env args s))"
    using tripleI [OF ok] by (simp add: main_resumed [OF p pheno])
  then obtain cs evs1 s1 evs23 where
    load: "pickle_load env p s = (Inr cs, evs1, s1)"
    and rest: "bnd (phenomize config_data env cs) (convert_to_old_format args config_data env) s1
        = (Inr (), evs23, store_after (main config_data env args s))"
    and evs: "calls (main config_data env args s) = evs1 @ evs23"
    by (rule bnd_InrD)
  from rest obtain cs' evs2 s2 evs3 where
    ph: "phenomize config_data env cs s1 = (Inr cs', evs2, s2)"
    and conv: "convert_to_old_format args config_data env cs' s2
        = (Inr (), evs3, store_after (main config_data env args s))"
    and evs23: "evs23 = evs2 @ evs3"
    by (rule bnd_InrD)
  from load obtain b where b: "files s p = Some b" "pickle_loads env b = Inr cs"
    and evs1: "evs1 = [PickleLoad p]"
    by (auto simp: pickle_load_def call_def split: option.splits)
  from phenomize_InrD [OF ph] have phs: "map (case_phenomize env) cs = map Inr cs'"
    and evs2: "export_calls evs2 = []"
    by (simp_all add: export_calls_none)
  from convert_to_old_format_InrD [OF conv]
  have "map fst (export_calls evs3) = cs'"
    by (simp add: export_calls_map comp_def)
  then have "map fst (export_calls (calls (main config_data env args s))) = cs'"
    by (simp add: evs evs23 evs1 evs2 export_calls_append)
  with b phs show "\<exists>b cs cs'. files s p = Some b \<and> pickle_loads env b = Inr cs
             \<and> map (case_phenomize env) cs = map Inr cs'
             \<and> map fst (export_calls (calls (main config_data env args s))) = cs'"
    by blast
qed

text \<open>The checkpoint \<^verbatim>\<open>ok.p\<close> of the sample holds the cases 5 and 6.\<close>

theorem resume_skips_build_witness:
  "pickle (resume_args ''ok.p'') = Some ''ok.p'' \<and> entry (resume_args ''ok.p'') = ''pheno''
   \<and> calls (main sample_config sample_env (resume_args ''ok.p'') checkpoint_store)
      = [PickleLoad ''ok.p'', PhenomizerInit, Phenomize 5, Phenomize 6,
         PickleDump [105, 106] ''case_phenomized.p'', OmimInit,
         SaveOldJson 105 ''out'', SaveOldJson 106 ''out'']
   \<and> (\<exists>b cs cs'. files checkpoint_store ''ok.p'' = Some b \<and> pickle_loads sample_env b = Inr cs
         \<and> map (case_phenomize sample_env) cs = map Inr cs'
         \<and> map fst (export_calls
              (calls (main sample_config sample_env (resume_args ''ok.p'') checkpoint_store))) = cs')"
proof -
  have 1: "pickle (resume_args ''ok.p'') = Some ''ok.p''"
    and 2: "''ok.p'' \<noteq> []"
    and 3: "entry (resume_args ''ok.p'') = ''pheno''"
    by (simp_all add: resume_args_def parse_arguments_default_def)
  have 4: "outcome (main sample_config sample_env (resume_args ''ok.p'') checkpoint_store) = Inr ()"
    by code_simp
  have 5: "calls (main sample_config sample_env (resume_args ''ok.p'') checkpoint_store)
      = [PickleLoad ''ok.p'', PhenomizerInit, Phenomize 5, Phenomize 6,
         PickleDump [105, 106] ''case_phenomized.p'', OmimInit,
         SaveOldJson 105 ''out'', SaveOldJson 106 ''out'']"
    by code_simp
  from resume_skips_build [OF 1 2 3, of sample_config sample_env checkpoint_store] 1 3 4 5
  show ?thesis by blast
qed

subsection \<open>C4: the gate of the phenomization\<close>

text \<open>
  C4. Take a run that has built its collection or loaded it from a checkpoint. The
  phenomization stage is entered (\<^verbatim>\<open>PhenomizerService\<close> is created, the first call of the
  stage) if and only if \<^verbatim>\<open>--entry\<close> is \<^verbatim>\<open>pheno\<close>. With \<^verbatim>\<open>pheno\<close> the run goes on with the
  phenomization of the collection and then the export; with any other value it goes on
  with the export of the collection as it is. The hypothesis covers both ways of
  getting the collection.
\<close>

theorem phenomization_gate:
  fixes env :: "('j, 'c, 'b) collaborators"
  assumes reach: "build_or_load config_data env args s = (Inr cs, evs1, s1)"
  shows "(list_ex (\<lambda>ev. stage_of ev = Phenomization) (calls (main config_data env args s))
            \<longleftrightarrow> entry args = ''pheno'')
     \<and> (PhenomizerInit \<in> set (calls (main config_data env args s)) \<longleftrightarrow> entry args = ''pheno'')
     \<and> (entry args = ''pheno'' \<longrightarrow>
          main config_data env args s =
            (let x = bnd (phenomize config_data env cs)
                       (convert_to_old_format args config_data env) s1
             in (outcome x, evs1 @ calls x, store_after x)))
     \<and> (entry args \<noteq> ''pheno'' \<longrightarrow>
          main config_data env args s =
            (let x = convert_to_old_format args config_data env cs s1
             in (outcome x, evs1 @ calls x, store_after x)))"
proof -
  have skip: "list_all (\<lambda>ev. stage_of ev \<noteq> Phenomization) (calls (main config_data env args s))"
    if "entry args \<noteq> ''pheno''"
  proof -
    have "emits (\<lambda>ev. stage_of ev \<noteq> Phenomization) (main config_data env args)"
      using that by (intro emits_main) simp_all
    then show ?thesis by (rule emitsD)
  qed
  have run: "PhenomizerInit \<in> set (calls (main config_data env args s))"
    if pheno: "entry args = ''pheno''"
  proof -
    obtain evs where "calls (phenomize config_data env cs s1) = PhenomizerInit # evs"
      using phenomize_calls_hd by blast
    moreover obtain evs' where "calls (bnd (phenomize config_data env cs)
        (convert_to_old_format args config_data env) s1)
        = calls (phenomize config_data env cs s1) @ evs'"
      using calls_bnd_prefix by blast
    ultimately show ?thesis
      by (simp add: main_reached [OF reach] pheno Let_def)
  qed
  have 1: "list_ex (\<lambda>ev. stage_of ev = Phenomization) (calls (main config_data env args s))
            \<longleftrightarrow> entry args = ''pheno''"
  proof
    assume "list_ex (\<lambda>ev. stage_of ev = Phenomization) (calls (main config_data env args s))"
    with skip show "entry args = ''pheno''"
      by (auto simp: list_ex_iff list_all_iff)
  next
    assume "entry args = ''pheno''"
    from run [OF this] show "list_ex (\<lambda>ev. stage_of ev = Phenomization)
        (calls (main config_data env args s))"
      by (auto simp: list_ex_iff intro!: bexI [of _ PhenomizerInit])
  qed
  have 2: "PhenomizerInit \<in> set (calls (main config_data env args s)) \<longleftrightarrow> entry args = ''pheno''"
  proof
    assume init: "PhenomizerInit \<in> set (calls (main config_data env args s))"
    show "entry args = ''pheno''"
    proof (rule ccontr)
      assume "entry args \<noteq> ''pheno''"
      from skip [OF this] have "\<forall>ev \<in> set (calls (main config_data env args s)).
          stage_of ev \<noteq> Phenomization"
        by (simp add: list_all_iff)
      from bspec [OF this init] show False by simp
    qed
  qed (rule run)
  show ?thesis
    by (intro conjI impI 1 2) (simp_all add: main_reached [OF reach] bnd_ret)
qed

text \<open>
  A fresh run with the default entry point, a fresh run with \<^verbatim>\<open>--entry export\<close>, and a
  resumed run with \<^verbatim>\<open>--entry export\<close>, which exports the checkpoint as it is.
\<close>

theorem phenomization_gate_witness:
  "outcome (build_or_load sample_config sample_env fresh_args empty_store) = Inr [11, 31]
   \<and> entry fresh_args = ''pheno''
   \<and> PhenomizerInit \<in> set (calls (main sample_config sample_env fresh_args empty_store))
   \<and> outcome (build_or_load sample_config sample_env (fresh_args\<lparr>entry := ''export''\<rparr>) empty_store)
       = Inr [11, 31]
   \<and> PhenomizerInit \<notin> set (calls (main sample_config sample_env
         (fresh_args\<lparr>entry := ''export''\<rparr>) empty_store))
   \<and> export_calls (calls (main sample_config sample_env
         (fresh_args\<lparr>entry := ''export''\<rparr>) empty_store)) = [(11, ''out''), (31, ''out'')]
   \<and> outcome (build_or_load sample_config sample_env
         ((resume_args ''ok.p'')\<lparr>entry := ''export''\<rparr>) checkpoint_store) = Inr [5, 6]
   \<and> calls (main sample_config sample_env
         ((resume_args ''ok.p'')\<lparr>entry := ''export''\<rparr>) checkpoint_store)
       = [PickleLoad ''ok.p'', OmimInit, SaveOldJson 5 ''out'', SaveOldJson 6 ''out'']"
proof -
  have 1: "outcome (build_or_load sample_config sample_env fresh_args empty_store) = Inr [11, 31]"
    by code_simp
  have 2: "entry fresh_args = ''pheno''"
    by (simp add: fresh_args_def parse_arguments_default_def)
  have 3: "outcome (build_or_load sample_config sample_env (fresh_args\<lparr>entry := ''export''\<rparr>)
      empty_store) = Inr [11, 31]"
    by code_simp
  have 4: "entry (fresh_args\<lparr>entry := ''export''\<rparr>) \<noteq> ''pheno''"
    by simp
  have 5: "export_calls (calls (main sample_config sample_env
         (fresh_args\<lparr>entry := ''export''\<rparr>) empty_store)) = [(11, ''out''), (31, ''out'')]"
    by code_simp
  have 6: "outcome (build_or_load sample_config sample_env
         ((resume_args ''ok.p'')\<lparr>entry := ''export''\<rparr>) checkpoint_store) = Inr [5, 6]"
    by code_simp
  have 7: "calls (main sample_config sample_env
         ((resume_args ''ok.p'')\<lparr>entry := ''export''\<rparr>) checkpoint_store)
       = [PickleLoad ''ok.p'', OmimInit, SaveOldJson 5 ''out'', SaveOldJson 6 ''out'']"
    by code_simp
  note a = phenomization_gate [OF tripleI [OF 1], THEN conjunct2, THEN conjunct1]
  note b = phenomization_gate [OF tripleI [OF 3], THEN conjunct2, THEN conjunct1]
  from a b 1 2 3 4 5 6 7 show ?thesis
    by blast
qed

subsection \<open>Runs of \<^verbatim>\<open>create_cases\<close>\<close>

lemma correction_calls_append:
  "correction_calls (evs @ evs') = correction_calls evs @ correction_calls evs'"
  by (induction evs rule: correction_calls.induct) simp_all

lemma correction_calls_none:
  "list_all (\<lambda>ev. stage_of ev \<noteq> CaseBuilder) evs \<Longrightarrow> correction_calls evs = []"
  by (induction evs rule: correction_calls.induct) simp_all

lemma correction_calls_NewCase: "correction_calls (map (\<lambda>j. NewCase j x) js) = []"
  by (induction js) simp_all

lemma create_cases_built:
  assumes "yield_cases env jsons (exclude_normal_variants cfg) s = (Inr case_objs, evs, s')"
  shows "create_cases args cfg env jsons s =
     (case correct_reference_transcripts env case_objs of
        Inl e \<Rightarrow>
          (Inl e, ErrorFixerInit # map (\<lambda>j. NewCase j (exclude_normal_variants cfg)) jsons
                    @ [CorrectReferenceTranscripts case_objs], s)
      | Inr cs \<Rightarrow>
          (Inr cs, ErrorFixerInit # map (\<lambda>j. NewCase j (exclude_normal_variants cfg)) jsons
                    @ CorrectReferenceTranscripts case_objs
                    # (if dump_intermediate cfg then [PickleDump cs ''case_cleaned.p''] else []),
           if dump_intermediate cfg
           then s\<lparr>files := (files s)(''case_cleaned.p'' \<mapsto> pickle_dumps env cs)\<rparr> else s))"
proof -
  from progress_bar_call_InrD [OF assms [unfolded yield_cases_def]]
  have evs: "evs = map (\<lambda>j. NewCase j (exclude_normal_variants cfg)) jsons" and s': "s' = s"
    by simp_all
  show ?thesis
    by (cases "correct_reference_transcripts env case_objs")
       (simp_all add: create_cases_def bnd_call_unit
          bnd_Inr [where m = "yield_cases env jsons (exclude_normal_variants cfg)", OF assms]
          bnd_call_Inl bnd_call_Inr dump_tail evs s')
qed

lemma emits_after_build:
  "emits (\<lambda>ev. stage_of ev \<noteq> CaseBuilder)
     (bnd (if entry args = ''pheno'' then phenomize cfg env cs else ret cs)
        (convert_to_old_format args cfg env))"
  by (intro emits_bnd emits_if emits_phenomize emits_ret emits_convert_to_old_format) simp_all

subsection \<open>C6: one correction of the reference transcripts\<close>

text \<open>
  C6 says that the correction of the reference transcripts is invoked exactly once in
  every run. A run resumed from a checkpoint does not build cases and does not invoke it:
  the resumed sample run ends normally without a call of it.
\<close>

theorem correction_once_counterexample:
  "outcome (main sample_config sample_env (resume_args ''ok.p'') checkpoint_store) = Inr ()
   \<and> length (correction_calls
        (calls (main sample_config sample_env (resume_args ''ok.p'') checkpoint_store))) \<noteq> 1"
  by code_simp

text \<open>
  C6, amended. In a run without a checkpoint path in which the submissions are read and
  every \<^verbatim>\<open>Case\<close> is constructed, \<^verbatim>\<open>mutalyzer.correct_reference_transcripts\<close> is called
  exactly once, on the whole list of constructed cases; the construction of every case
  precedes the call; before it the run has made calls of the acquisition, of the parsing
  and of the case builder only, so no checkpoint has been written and the phenomization
  has not begun; no call of the case builder follows it, and when it raises nothing
  follows it at all. In a run with a checkpoint path it is not called.
\<close>

theorem correction_once_fresh:
  fixes env :: "('j, 'c, 'b) collaborators"
  shows "(truthy (pickle args) \<longrightarrow>
            correction_calls (calls (main config_data env args s)) = [])
     \<and> (\<not> truthy (pickle args) \<longrightarrow>
          (\<forall>jsons evs0 s0 case_objs evs1 s1.
             create_jsons args config_data env s = (Inr jsons, evs0, s0) \<longrightarrow>
             yield_cases env jsons (exclude_normal_variants config_data) s0
               = (Inr case_objs, evs1, s1) \<longrightarrow>
             (\<exists>post.
                calls (main config_data env args s)
                  = evs0 @ ErrorFixerInit
                      # map (\<lambda>j. NewCase j (exclude_normal_variants config_data)) jsons
                      @ CorrectReferenceTranscripts case_objs # post
                \<and> map (\<lambda>j. new_case env j (exclude_normal_variants config_data)) jsons
                    = map Inr case_objs
                \<and> list_all (\<lambda>ev. stage_of ev = Acquisition \<or> stage_of ev = ParseFilter) evs0
                \<and> list_all (\<lambda>ev. stage_of ev \<noteq> CaseBuilder) post
                \<and> correction_calls (calls (main config_data env args s)) = [case_objs]
                \<and> (\<forall>e. correct_reference_transcripts env case_objs = Inl e \<longrightarrow> post = []))))"
proof (intro conjI impI allI)
  assume "truthy (pickle args)"
  then have "emits (\<lambda>ev. stage_of ev \<noteq> CaseBuilder) (main config_data env args)"
    by (intro emits_main) simp_all
  from emitsD [OF this] show "correction_calls (calls (main config_data env args s)) = []"
    by (rule correction_calls_none)
next
  fix jsons :: "'j list" and evs0 evs1 :: "('j, 'c) event list" and s0 s1 :: "'b store"
    and case_objs :: "'c list"
  let ?x = "exclude_normal_variants config_data"
  let ?pre = "evs0 @ ErrorFixerInit # map (\<lambda>j. NewCase j ?x) jsons"
  assume fresh: "\<not> truthy (pickle args)"
    and js: "create_jsons args config_data env s = (Inr jsons, evs0, s0)"
    and built: "yield_cases env jsons ?x s0 = (Inr case_objs, evs1, s1)"
  have bl: "build_or_load config_data env args s =
      (let y = create_cases args config_data env jsons s0
       in (outcome y, evs0 @ calls y, store_after y))"
    using fresh
    by (simp add: build_or_load_def Let_def
          bnd_Inr [where m = "create_jsons args config_data env", OF js])
  have "list_all (\<lambda>ev. stage_of ev = Acquisition \<or> stage_of ev = ParseFilter)
      (calls (create_jsons args config_data env s))"
    by (rule emitsD [OF emits_create_jsons]) simp_all
  then have evs0: "list_all (\<lambda>ev. stage_of ev = Acquisition \<or> stage_of ev = ParseFilter) evs0"
    by (simp add: js)
  then have "list_all (\<lambda>ev. stage_of ev \<noteq> CaseBuilder) evs0"
    by (auto simp: list_all_iff)
  then have c0: "correction_calls evs0 = []"
    by (rule correction_calls_none)
  from progress_bar_call_InrD [OF built [unfolded yield_cases_def]]
  have cases: "map (\<lambda>j. new_case env j ?x) jsons = map Inr case_objs"
    by simp
  have "\<exists>post. calls (main config_data env args s) = ?pre @ CorrectReferenceTranscripts case_objs # post
      \<and> list_all (\<lambda>ev. stage_of ev \<noteq> CaseBuilder) post
      \<and> (\<forall>e. correct_reference_transcripts env case_objs = Inl e \<longrightarrow> post = [])"
  proof (cases "correct_reference_transcripts env case_objs")
    case (Inl e)
    then have "build_or_load config_data env args s
        = (Inl e, ?pre @ [CorrectReferenceTranscripts case_objs], s0)"
      by (simp add: bl Let_def create_cases_built [OF built])
    then have "main config_data env args s
        = (Inl e, ?pre @ [CorrectReferenceTranscripts case_objs], s0)"
      by (simp add: main_alt bnd_Inl [where m = "build_or_load config_data env args"])
    then show ?thesis
      by simp
  next
    case (Inr cs)
    let ?dump = "if dump_intermediate config_data then [PickleDump cs ''case_cleaned.p''] else []"
    let ?s = "if dump_intermediate config_data
      then s0\<lparr>files := (files s0)(''case_cleaned.p'' \<mapsto> pickle_dumps env cs)\<rparr> else s0"
    let ?k = "bnd (if entry args = ''pheno'' then phenomize config_data env cs else ret cs)
        (convert_to_old_format args config_data env)"
    from Inr have "build_or_load config_data env args s
        = (Inr cs, ?pre @ CorrectReferenceTranscripts case_objs # ?dump, ?s)"
      by (simp add: bl Let_def create_cases_built [OF built])
    then have run: "calls (main config_data env args s)
        = ?pre @ CorrectReferenceTranscripts case_objs # (?dump @ calls (?k ?s))"
      by (simp add: main_alt bnd_Inr [where m = "build_or_load config_data env args"])
    have "list_all (\<lambda>ev. stage_of ev \<noteq> CaseBuilder) (calls (?k ?s))"
      by (rule emitsD [OF emits_after_build])
    then have "list_all (\<lambda>ev. stage_of ev \<noteq> CaseBuilder) (?dump @ calls (?k ?s))"
      by simp
    with run Inr show ?thesis
      by (intro exI [of _ "?dump @ calls (?k ?s)"]) simp
  qed
  then obtain post where post: "calls (main config_data env args s)
        = ?pre @ CorrectReferenceTranscripts case_objs # post"
    "list_all (\<lambda>ev. stage_of ev \<noteq> CaseBuilder) post"
    "\<forall>e. correct_reference_transcripts env case_objs = Inl e \<longrightarrow> post = []"
    by blast
  have "correction_calls (calls (main config_data env args s)) = [case_objs]"
    by (simp add: post(1) correction_calls_append c0 correction_calls_NewCase
          correction_calls_none [OF post(2)])
  with post cases evs0
  show "\<exists>post. calls (main config_data env args s)
                  = evs0 @ ErrorFixerInit # map (\<lambda>j. NewCase j ?x) jsons
                      @ CorrectReferenceTranscripts case_objs # post
                \<and> map (\<lambda>j. new_case env j ?x) jsons = map Inr case_objs
                \<and> list_all (\<lambda>ev. stage_of ev = Acquisition \<or> stage_of ev = ParseFilter) evs0
                \<and> list_all (\<lambda>ev. stage_of ev \<noteq> CaseBuilder) post
                \<and> correction_calls (calls (main config_data env args s)) = [case_objs]
                \<and> (\<forall>e. correct_reference_transcripts env case_objs = Inl e \<longrightarrow> post = [])"
    by (intro exI [of _ post]) simp
qed

text \<open>The fresh run of the sample, call by call, and the resumed run.\<close>

theorem correction_once_fresh_witness:
  "\<not> truthy (pickle fresh_args)
   \<and> outcome (create_jsons fresh_args sample_config sample_env empty_store) = Inr [1, 3]
   \<and> calls (main sample_config sample_env fresh_args empty_store)
      = [BackupS3Folder, Listdir ''cache/cases'',
         FromFile ''cache/cases/1.json'' ''corrected'', FromFile ''cache/cases/2.json'' ''corrected'',
         FromFile ''cache/cases/3.json'' ''corrected'',
         Print ''Unfiltered'' 3, Print ''Filtered rough criteria'' 2,
         ErrorFixerInit, NewCase 1 False, NewCase 3 False,
         CorrectReferenceTranscripts [10, 30], PickleDump [11, 31] ''case_cleaned.p'',
         PhenomizerInit, Phenomize 11, Phenomize 31, PickleDump [111, 131] ''case_phenomized.p'',
         OmimInit, SaveOldJson 111 ''out'', SaveOldJson 131 ''out'']
   \<and> correction_calls (calls (main sample_config sample_env fresh_args empty_store)) = [[10, 30]]
   \<and> truthy (pickle (resume_args ''ok.p''))
   \<and> correction_calls (calls (main sample_config sample_env (resume_args ''ok.p'') checkpoint_store))
      = []"
proof -
  have 1: "\<not> truthy (pickle fresh_args)"
    by (simp add: fresh_args_def parse_arguments_default_def)
  have 2: "outcome (create_jsons fresh_args sample_config sample_env empty_store) = Inr [1, 3]"
    by code_simp
  have 3: "outcome (yield_cases sample_env [1, 3] (exclude_normal_variants sample_config)
      (store_after (create_jsons fresh_args sample_config sample_env empty_store))) = Inr [10, 30]"
    by code_simp
  have 4: "calls (main sample_config sample_env fresh_args empty_store)
      = [BackupS3Folder, Listdir ''cache/cases'',
         FromFile ''cache/cases/1.json'' ''corrected'', FromFile ''cache/cases/2.json'' ''corrected'',
         FromFile ''cache/cases/3.json'' ''corrected'',
         Print ''Unfiltered'' 3, Print ''Filtered rough criteria'' 2,
         ErrorFixerInit, NewCase 1 False, NewCase 3 False,
         CorrectReferenceTranscripts [10, 30], PickleDump [11, 31] ''case_cleaned.p'',
         PhenomizerInit, Phenomize 11, Phenomize 31, PickleDump [111, 131] ''case_phenomized.p'',
         OmimInit, SaveOldJson 111 ''out'', SaveOldJson 131 ''out'']"
    by code_simp
  have 5: "truthy (pickle (resume_args ''ok.p''))"
    by (simp add: resume_args_def parse_arguments_default_def)
  note fresh = correction_once_fresh [of fresh_args sample_config sample_env empty_store,
      THEN conjunct2, rule_format, OF 1 tripleI [OF 2] tripleI [OF 3]]
  note resumed = correction_once_fresh [of "resume_args ''ok.p''" sample_config sample_env
      checkpoint_store, THEN conjunct1, rule_format, OF 5]
  from fresh resumed 1 2 4 5 show ?thesis
    by blast
qed

end
